theory Spec2Isabelle
  imports Complex_Main "HOL-Library.Log_Nat"
begin

section \<open>Python values and errors\<close>

text \<open>
  The values that reach \<^verbatim>\<open>filter_ctc_output\<close>: integers (what
  \<^verbatim>\<open>tolist()\<close> returns for index tensors), strings (the docstring's
  \<^verbatim>\<open>'a'\<close>, \<^verbatim>\<open>'blank'\<close>), lists (also nested) and tuples.
  On these values Python's \<^verbatim>\<open>==\<close> and \<^verbatim>\<open>!=\<close> are
  equality and inequality of the values, that is HOL's \<open>=\<close> and \<open>\<noteq>\<close>
  on the datatype.
\<close>

datatype pyobj =
    PyInt int
  | PyStr string
  | PyTuple "pyobj list"
  | PyList "pyobj list"

text \<open>The exceptions that the two functions and the library calls they make can raise.\<close>

datatype py_error = ValueError | IndexError | TypeError | RuntimeError | OverflowError

section \<open>\<^verbatim>\<open>filter_ctc_output\<close>\<close>

text \<open>
  First pass, ``Filter the repetitions'':
  \<^verbatim>\<open>[v for i, v in enumerate(string_pred) if i == 0 or v != string_pred[i - 1]]\<close>.
  The index \<open>i - 1\<close> is read only when \<open>i \<noteq> 0\<close>, where it is in range.
\<close>

definition filter_repetitions :: "'a list \<Rightarrow> 'a list" where
  "filter_repetitions string_pred =
     map snd (filter (\<lambda>(i, v). i = 0 \<or> v \<noteq> string_pred ! (i - 1))
                     (enumerate 0 string_pred))"

text \<open>
  Second pass, ``Remove duplicates'': \<^verbatim>\<open>[i[0] for i in groupby(string_out)]\<close>.
  \<^verbatim>\<open>groupby\<close> walks the list once and remembers the key of the group it is in
  (\<open>tgtkey\<close>, no key before the first element); an element equal to that key
  belongs to the running group, any other element opens a new group, of which it is the
  key. The comprehension keeps the key of every group.
\<close>

fun groupby_keys :: "'a option \<Rightarrow> 'a list \<Rightarrow> 'a list" where
  "groupby_keys tgtkey [] = []"
| "groupby_keys tgtkey (v # vs) =
     (if tgtkey = Some v then groupby_keys tgtkey vs
      else v # groupby_keys (Some v) vs)"

definition remove_duplicates :: "'a list \<Rightarrow> 'a list" where
  "remove_duplicates string_out = groupby_keys None string_out"

text \<open>
  Third pass, ``Filter the blank symbol'':
  \<^verbatim>\<open>list(filter(lambda elem: elem != blank_id, string_out))\<close>.
\<close>

definition filter_blank :: "'a \<Rightarrow> 'a list \<Rightarrow> 'a list" where
  "filter_blank blank_id string_out = filter (\<lambda>elem. elem \<noteq> blank_id) string_out"

text \<open>
  \<^verbatim>\<open>def filter_ctc_output(string_pred, blank_id=-1)\<close>. The second argument is
  optional: \<open>None\<close> stands for a call that leaves it out, and the parameter is
  then \<open>-1\<close>. Anything that is not a list raises \<^verbatim>\<open>ValueError\<close>.
\<close>

definition filter_ctc_output :: "pyobj \<Rightarrow> pyobj option \<Rightarrow> py_error + pyobj list" where
  "filter_ctc_output string_pred blank_arg =
     (let blank_id = (case blank_arg of None \<Rightarrow> PyInt (- 1) | Some b \<Rightarrow> b) in
      case string_pred of
        PyList xs \<Rightarrow>
          Inr (filter_blank blank_id (remove_duplicates (filter_repetitions xs)))
      | _ \<Rightarrow> Inl ValueError)"

text \<open>
  The two passes the documentation of the function speaks of (merge the repetitions, then
  remove the blank), without the pass through \<^verbatim>\<open>groupby\<close>.
\<close>

definition collapse_then_filter :: "'a list \<Rightarrow> 'a \<Rightarrow> 'a list" where
  "collapse_then_filter s b = filter_blank b (filter_repetitions s)"

section \<open>Tensors\<close>

text \<open>
  A tensor is its shape and its elements in row-major order, as many as the product of
  the shape; a tensor of shape \<open>[]\<close> is a scalar and has one element. The
  definitions below give, for the calls that \<^verbatim>\<open>ctc_greedy_decode\<close> makes on
  tensors, the result or the exception of the library. Scores are values of a linear
  order: only their comparison matters, and there is no value like NaN that compares with
  nothing.
\<close>

record 'a tensor =
  shape :: "nat list"
  elems :: "'a list"

definition numel :: "nat list \<Rightarrow> nat" where
  "numel shp = prod_list shp"

text \<open>\<^verbatim>\<open>t.shape[-1]\<close>: the last entry of the shape, \<^verbatim>\<open>IndexError\<close> on a scalar.\<close>

definition shape_last :: "'a tensor \<Rightarrow> py_error + nat" where
  "shape_last t = (case shape t of [] \<Rightarrow> Inl IndexError | _ # _ \<Rightarrow> Inr (last (shape t)))"

text \<open>
  \<^verbatim>\<open>t[i]\<close> is the slice of \<open>t\<close> at index \<open>i\<close> of its first dimension,
  and \<^verbatim>\<open>for seq in t\<close> runs through these slices in order; a scalar cannot be
  iterated (\<^verbatim>\<open>TypeError\<close>).
\<close>

definition select0 :: "'a tensor \<Rightarrow> nat \<Rightarrow> 'a tensor" where
  "select0 t i =
     \<lparr>shape = tl (shape t),
        elems = take (numel (tl (shape t))) (drop (i * numel (tl (shape t))) (elems t))\<rparr>"

definition tensor_iter :: "'a tensor \<Rightarrow> py_error + 'a tensor list" where
  "tensor_iter t =
     (case shape t of
        [] \<Rightarrow> Inl TypeError
      | d # ds \<Rightarrow> Inr (map (select0 t) [0..<d]))"

text \<open>
  \<^verbatim>\<open>t.narrow(-1, 0, length)\<close>: the first \<open>length\<close> entries along the last
  dimension. The library raises \<^verbatim>\<open>RuntimeError\<close> on a scalar, on a negative
  \<open>length\<close> and on a \<open>length\<close> beyond the size of the dimension.
\<close>

definition narrow_last :: "'a tensor \<Rightarrow> int \<Rightarrow> py_error + 'a tensor" where
  "narrow_last t len =
     (case shape t of
        [] \<Rightarrow> Inl RuntimeError
      | _ # _ \<Rightarrow>
          if len < 0 then Inl RuntimeError
          else if int (last (shape t)) < len then Inl RuntimeError
          else
            Inr \<lparr>shape = butlast (shape t) @ [nat len],
                 elems = concat (map (\<lambda>r. take (nat len) (drop (r * last (shape t)) (elems t)))
                                     [0..<numel (butlast (shape t))])\<rparr>)"

text \<open>
  The maximum of a non-empty list and the index where it stands, found by one scan from
  the left that moves to a later element only when it is strictly greater: of several
  maximal elements the first is reported. \<open>torch_max_dim0\<close> below calls it on
  non-empty lists only.
\<close>

fun max_scan :: "'a::linorder \<Rightarrow> nat \<Rightarrow> nat \<Rightarrow> 'a list \<Rightarrow> 'a \<times> nat" where
  "max_scan best best_i i [] = (best, best_i)"
| "max_scan best best_i i (x # xs) =
     (if best < x then max_scan x i (Suc i) xs else max_scan best best_i (Suc i) xs)"

definition max_with_index :: "'a::linorder list \<Rightarrow> 'a \<times> nat" where
  "max_with_index xs = max_scan (hd xs) 0 1 (tl xs)"

text \<open>
  \<^verbatim>\<open>torch.max(t, dim=0)\<close>: values and indices of the maxima along the first
  dimension, each of the shape of \<open>t\<close> without that dimension; where the maximum
  occurs several times, the index of its first occurrence. The library raises
  \<^verbatim>\<open>IndexError\<close> when the first dimension has size \<open>0\<close>; when only another
  dimension has size \<open>0\<close>, the two results are empty tensors. A scalar is its own
  maximum, at index \<open>0\<close>.
\<close>

definition torch_max_dim0 :: "('a::linorder) tensor \<Rightarrow> py_error + ('a tensor \<times> int tensor)" where
  "torch_max_dim0 t =
     (case shape t of
        [] \<Rightarrow> Inr (t, \<lparr>shape = [], elems = [0]\<rparr>)
      | d # ds \<Rightarrow>
          if d = 0 then Inl IndexError
          else
            let found = map (\<lambda>j. max_with_index (map (\<lambda>i. elems t ! (i * numel ds + j)) [0..<d]))
                            [0..<numel ds]
            in Inr (\<lparr>shape = ds, elems = map fst found\<rparr>,
                    \<lparr>shape = ds, elems = map (\<lambda>r. int (snd r)) found\<rparr>))"

text \<open>
  \<^verbatim>\<open>t.tolist()\<close> on a tensor of integers: a Python integer for a scalar (its one
  element), a list of the \<^verbatim>\<open>tolist()\<close> of the slices otherwise.
\<close>

fun tolist_from :: "nat list \<Rightarrow> int list \<Rightarrow> pyobj" where
  "tolist_from [] es = PyInt (hd es)"
| "tolist_from (d # ds) es =
     PyList (map (\<lambda>i. tolist_from ds (take (numel ds) (drop (i * numel ds) es))) [0..<d])"

definition tolist :: "int tensor \<Rightarrow> pyobj" where
  "tolist t = tolist_from (shape t) (elems t)"

section \<open>Floating-point numbers\<close>

text \<open>
  The relative lengths are the entries of a tensor of single-precision floating-point
  numbers (the type of \<^verbatim>\<open>torch.tensor([0.51, 1.0])\<close> in the documentation of the
  function). A finite entry is the rational number it stands for, of the form
  \<open>m * 2\<^sup>k\<close> with \<open>\<bar>m\<bar> < 2\<^sup>2\<^sup>4\<close> and \<open>k \<ge> -149\<close>; the two zeros are not told
  apart, since no operation used here tells them apart.
\<close>

datatype f32 = Fin rat | PInf | NInf | NaN

text \<open>
  The nearest integer, and the even one of the two when \<open>x\<close> lies halfway between
  them.
\<close>

definition round_half_even :: "rat \<Rightarrow> int" where
  "round_half_even x =
     (let n = \<lfloor>x\<rfloor>; frac = x - of_int n in
      if frac < 1 / 2 then n
      else if 1 / 2 < frac then n + 1
      else if even n then n else n + 1)"

text \<open>
  For \<open>x > 0\<close>, the exponent \<open>e\<close> with \<open>2\<^sup>e \<le> x < 2\<^sup>e\<^sup>+\<^sup>1\<close>.
\<close>

definition ilog2 :: "rat \<Rightarrow> int" where
  "ilog2 x = (if 1 \<le> x then bitlen \<lfloor>x\<rfloor> - 1 else - bitlen (\<lceil>1 / x\<rceil> - 1))"

text \<open>
  Rounding a rational number to single precision, to the nearest number of the format and
  to the one with the even significand in a tie. The significand has 24 bits, so the
  numbers of the format near \<open>x\<close> are the multiples of \<open>2\<^sup>e\<^sup>-\<^sup>2\<^sup>3\<close>, where \<open>e\<close> is
  the exponent of \<open>x\<close> and at least \<open>-126\<close> (below \<open>2\<^sup>-\<^sup>1\<^sup>2\<^sup>6\<close> the spacing
  stays \<open>2\<^sup>-\<^sup>1\<^sup>4\<^sup>9\<close>). A result of magnitude \<open>2\<^sup>1\<^sup>2\<^sup>8\<close> or more is an infinity.
\<close>

definition round_f32 :: "rat \<Rightarrow> f32" where
  "round_f32 x =
     (if x = 0 then Fin 0
      else
        let e = max (ilog2 \<bar>x\<bar>) (- 126);
            q = 2 powi (e - 23);
            y = of_int (round_half_even (x / q)) * q
        in if 2 ^ 128 \<le> \<bar>y\<bar> then (if 0 < x then PInf else NInf) else Fin y)"

text \<open>
  The Python integer \<^verbatim>\<open>batch_max_len\<close> becomes a number of the format before it is
  multiplied.
\<close>

definition f32_of_int :: "int \<Rightarrow> f32" where
  "f32_of_int n = round_f32 (of_int n)"

text \<open>
  The product of two numbers of the format: the exact product, rounded once. An infinity
  times zero, and anything times \<open>nan\<close>, is \<open>nan\<close>.
\<close>

fun f32_mul :: "f32 \<Rightarrow> f32 \<Rightarrow> f32" where
  "f32_mul NaN y = NaN"
| "f32_mul x NaN = NaN"
| "f32_mul (Fin a) (Fin b) = round_f32 (a * b)"
| "f32_mul (Fin a) PInf = (if a = 0 then NaN else if 0 < a then PInf else NInf)"
| "f32_mul (Fin a) NInf = (if a = 0 then NaN else if 0 < a then NInf else PInf)"
| "f32_mul PInf (Fin b) = (if b = 0 then NaN else if 0 < b then PInf else NInf)"
| "f32_mul NInf (Fin b) = (if b = 0 then NaN else if 0 < b then NInf else PInf)"
| "f32_mul PInf PInf = PInf"
| "f32_mul PInf NInf = NInf"
| "f32_mul NInf PInf = NInf"
| "f32_mul NInf NInf = PInf"

text \<open>
  \<^verbatim>\<open>torch.round\<close>: a finite number goes to the nearest integer, to the even one in a
  tie; infinities and \<open>nan\<close> stay.
\<close>

fun torch_round :: "f32 \<Rightarrow> f32" where
  "torch_round (Fin x) = Fin (of_int (round_half_even x))"
| "torch_round v = v"

text \<open>
  \<^verbatim>\<open>int(x)\<close> on a tensor of one floating-point number: the number without its
  fraction; \<^verbatim>\<open>OverflowError\<close> for an infinity and \<^verbatim>\<open>ValueError\<close> for \<open>nan\<close>.
\<close>

fun py_int :: "f32 \<Rightarrow> py_error + int" where
  "py_int (Fin x) = Inr (if 0 \<le> x then \<lfloor>x\<rfloor> else \<lceil>x\<rceil>)"
| "py_int PInf = Inl OverflowError"
| "py_int NInf = Inl OverflowError"
| "py_int NaN = Inl ValueError"

section \<open>\<^verbatim>\<open>ctc_greedy_decode\<close>\<close>

text \<open>
  The body of the loop, for one example \<open>seq\<close> with its relative length:
  \<^verbatim>\<open>
  actual_size = int(torch.round(seq_len * batch_max_len))
  scores, predictions = torch.max(seq.narrow(-1, 0, actual_size), dim=0)
  out = filter_ctc_output(predictions.tolist(), blank_id=blank_id)
  \<close>
  The product \<^verbatim>\<open>seq_len * batch_max_len\<close> is a product of floating-point numbers,
  rounded to single precision before \<^verbatim>\<open>torch.round\<close> sees it.
\<close>

definition actual_size :: "f32 \<Rightarrow> nat \<Rightarrow> py_error + int" where
  "actual_size seq_len batch_max_len =
     py_int (torch_round (f32_mul seq_len (f32_of_int (int batch_max_len))))"

definition decode_example ::
  "nat \<Rightarrow> pyobj \<Rightarrow> ('a::linorder) tensor \<Rightarrow> f32 \<Rightarrow> py_error + pyobj list" where
  "decode_example batch_max_len blank_id seq seq_len =
     (case actual_size seq_len batch_max_len of
        Inl e \<Rightarrow> Inl e
      | Inr asize \<Rightarrow>
          (case narrow_last seq asize of
             Inl e \<Rightarrow> Inl e
           | Inr narrowed \<Rightarrow>
               (case torch_max_dim0 narrowed of
                  Inl e \<Rightarrow> Inl e
                | Inr (scores, predictions) \<Rightarrow>
                    filter_ctc_output (tolist predictions) (Some blank_id))))"

text \<open>
  The loop \<^verbatim>\<open>for seq, seq_len in zip(probabilities, seq_lens)\<close>, which appends
  each output to \<^verbatim>\<open>batch_outputs\<close>. An exception in the body ends the call.
\<close>

fun decode_loop ::
  "nat \<Rightarrow> pyobj \<Rightarrow> (('a::linorder) tensor \<times> f32) list \<Rightarrow> pyobj list list
     \<Rightarrow> py_error + pyobj list list" where
  "decode_loop batch_max_len blank_id [] batch_outputs = Inr batch_outputs"
| "decode_loop batch_max_len blank_id ((seq, seq_len) # rest) batch_outputs =
     (case decode_example batch_max_len blank_id seq seq_len of
        Inl e \<Rightarrow> Inl e
      | Inr out \<Rightarrow> decode_loop batch_max_len blank_id rest (batch_outputs @ [out]))"

text \<open>
  \<^verbatim>\<open>def ctc_greedy_decode(probabilities, seq_lens, blank_id)\<close>. The relative
  lengths are a one-dimensional tensor of single-precision numbers, given as the list of
  its entries; \<^verbatim>\<open>zip\<close> stops at the shorter of its two arguments.
\<close>

definition ctc_greedy_decode ::
  "('a::linorder) tensor \<Rightarrow> f32 list \<Rightarrow> pyobj \<Rightarrow> py_error + pyobj list list" where
  "ctc_greedy_decode probabilities seq_lens blank_id =
     (case shape_last probabilities of
        Inl e \<Rightarrow> Inl e
      | Inr batch_max_len \<Rightarrow>
          (case tensor_iter probabilities of
             Inl e \<Rightarrow> Inl e
           | Inr seqs \<Rightarrow> decode_loop batch_max_len blank_id (zip seqs seq_lens) []))"

section \<open>What a decoding is\<close>



text \<open>
  \<open>n\<close> is the integer nearest to \<open>x\<close>, and the even one of the two nearest when
  \<open>x\<close> lies halfway between them.
\<close>

definition nearest_int_even :: "rat \<Rightarrow> int \<Rightarrow> bool" where
  "nearest_int_even x n \<longleftrightarrow>
     \<bar>x - of_int n\<bar> \<le> 1 / 2 \<and> (\<bar>x - of_int n\<bar> = 1 / 2 \<longrightarrow> even n)"

text \<open>
  For a matrix of \<open>V\<close> rows and \<open>T\<close> columns stored in \<open>es\<close>: the row indices
  that the scan of the first \<open>n\<close> columns reports, and the list that the two passes of
  \<open>collapse_then_filter\<close> make of them.
\<close>

definition greedy_path :: "('a::linorder) list \<Rightarrow> nat \<Rightarrow> nat \<Rightarrow> nat \<Rightarrow> nat list" where
  "greedy_path es V T n =
     map (\<lambda>t. snd (max_with_index (map (\<lambda>v. es ! (v * T + t)) [0..<V]))) [0..<n]"

definition decoded :: "nat \<Rightarrow> nat \<Rightarrow> pyobj \<Rightarrow> ('a::linorder) tensor \<Rightarrow> nat \<Rightarrow> pyobj list" where
  "decoded V T b seq n =
     collapse_then_filter (map (\<lambda>k. PyInt (int k)) (greedy_path (elems seq) V T n)) b"

section \<open>The three passes\<close>

lemma enumerate_filter_shift:
  "map snd (filter (\<lambda>(i, v). P i v) (enumerate (Suc n) xs)) =
   map snd (filter (\<lambda>(i, v). P (Suc i) v) (enumerate n xs))"
  by (induction xs arbitrary: n) auto

lemma filter_after_first:
  "map snd (filter (\<lambda>(i, v). v \<noteq> (p # xs) ! i) (enumerate 0 xs)) = tl (remdups_adj (p # xs))"
proof (induction xs arbitrary: p)
  case Nil
  then show ?case by simp
next
  case (Cons y ys)
  have "map snd (filter (\<lambda>(i, v). v \<noteq> (p # y # ys) ! i) (enumerate (Suc 0) ys))
      = map snd (filter (\<lambda>(i, v). v \<noteq> (p # y # ys) ! Suc i) (enumerate 0 ys))"
    by (rule enumerate_filter_shift)
  also have "\<dots> = tl (remdups_adj (y # ys))"
    using Cons.IH [of y] by simp
  finally show ?case
    by (auto simp: remdups_adj_Cons split: list.splits)
qed

lemma filter_repetitions_remdups_adj: "filter_repetitions xs = remdups_adj xs"
proof (cases xs)
  case Nil
  then show ?thesis by (simp add: filter_repetitions_def)
next
  case (Cons x ys)
  have "map snd (filter (\<lambda>(i, v). i = 0 \<or> v \<noteq> (x # ys) ! (i - 1)) (enumerate (Suc 0) ys))
      = map snd (filter (\<lambda>(i, v). Suc i = 0 \<or> v \<noteq> (x # ys) ! (Suc i - 1)) (enumerate 0 ys))"
    by (rule enumerate_filter_shift)
  then show ?thesis
    using filter_after_first [of x ys] Cons by (simp add: filter_repetitions_def)
qed

lemma groupby_keys_Some: "groupby_keys (Some k) xs = tl (remdups_adj (k # xs))"
  by (induction xs arbitrary: k) (auto simp: remdups_adj_Cons split: list.splits)

lemma groupby_keys_None: "groupby_keys None xs = remdups_adj xs"
  by (cases xs) (auto simp: groupby_keys_Some)

lemma remove_duplicates_remdups_adj: "remove_duplicates xs = remdups_adj xs"
  by (simp add: remove_duplicates_def groupby_keys_None)

lemma remdups_adj_twice: "remdups_adj (remdups_adj xs) = remdups_adj xs"
  using distinct_adj_remdups_adj [of xs] by (simp only: distinct_adj_altdef)

lemma remove_duplicates_redundant:
  "remove_duplicates (filter_repetitions xs) = filter_repetitions xs"
  by (simp add: remove_duplicates_remdups_adj filter_repetitions_remdups_adj remdups_adj_twice)

lemma filter_ctc_output_list:
  "filter_ctc_output (PyList s) (Some b) = Inr (filter (\<lambda>e. e \<noteq> b) (remdups_adj s))"
  by (simp add: filter_ctc_output_def filter_blank_def remove_duplicates_remdups_adj
      filter_repetitions_remdups_adj remdups_adj_twice)

lemma filter_blank_absent: "b \<notin> set xs \<Longrightarrow> filter (\<lambda>e. e \<noteq> b) xs = xs"
  by (induction xs) auto

lemma no_adjacent_iff:
  "(\<forall>i. Suc i < length xs \<longrightarrow> xs ! i \<noteq> xs ! Suc i) \<longleftrightarrow> remdups_adj xs = xs"
  using distinct_adj_conv_nth [of xs] distinct_adj_altdef [of xs] by simp

section \<open>Properties of \<^verbatim>\<open>filter_ctc_output\<close>\<close>

text \<open>
  Claim C2. The repetitions are merged before the blank is removed: the output is what
  removing the blank leaves of the list with its adjacent duplicates merged. So a blank
  between two equal symbols keeps them apart: for every symbol \<open>x\<close> other than the
  blank \<open>b\<close>, the list \<open>[x, b, x]\<close> is filtered to \<open>[x, x]\<close>, not to
  \<open>[x]\<close>. At \<open>x = 'a'\<close> and \<open>b = 'blank'\<close> this is the example of the claim.
\<close>

theorem filter_ctc_output_blank_separates:
  "filter_ctc_output (PyList s) (Some b) = Inr (filter (\<lambda>e. e \<noteq> b) (remdups_adj s))
   \<and> (x \<noteq> b \<longrightarrow> filter_ctc_output (PyList [x, b, x]) (Some b) = Inr [x, x]
                  \<and> filter_ctc_output (PyList [x, b, x]) (Some b) \<noteq> Inr [x])"
  by (simp add: filter_ctc_output_list)

theorem filter_ctc_output_blank_separates_witness:
  "PyStr ''a'' \<noteq> PyStr ''blank'' \<and>
   filter_ctc_output (PyList [PyStr ''a'', PyStr ''blank'', PyStr ''a'']) (Some (PyStr ''blank''))
     = Inr [PyStr ''a'', PyStr ''a'']"
  using filter_ctc_output_blank_separates [of _ "PyStr ''blank''" "PyStr ''a''"] by simp

text \<open>
  Claim C3, as stated: filtering the output of \<^verbatim>\<open>filter_ctc_output\<close> again gives
  the same list. It fails on \<open>[2, 0, 2]\<close> with blank \<open>0\<close>: the first call
  returns \<open>[2, 2]\<close>, and the second call merges the two symbols that the blank had
  kept apart.
\<close>

theorem filter_ctc_output_idempotent_counterexample:
  "filter_ctc_output (PyList [PyInt 2, PyInt 0, PyInt 2]) (Some (PyInt 0)) = Inr [PyInt 2, PyInt 2]
   \<and> filter_ctc_output (PyList [PyInt 2, PyInt 2]) (Some (PyInt 0)) = Inr [PyInt 2]
   \<and> filter_ctc_output (PyList [PyInt 2, PyInt 2]) (Some (PyInt 0))
       \<noteq> filter_ctc_output (PyList [PyInt 2, PyInt 0, PyInt 2]) (Some (PyInt 0))"
  by (simp add: filter_ctc_output_list)

text \<open>
  Claim C3, amended. For every list \<open>s\<close> and blank \<open>b\<close>, with \<open>out\<close> the
  output of the first call: the second call returns \<open>out\<close> with its adjacent
  repetitions merged; it returns \<open>out\<close> itself exactly when no two consecutive
  elements of \<open>out\<close> are equal; and that is so whenever \<open>s\<close> holds no blank.
\<close>

theorem filter_ctc_output_twice:
  "\<exists>out. filter_ctc_output (PyList s) (Some b) = Inr out
     \<and> filter_ctc_output (PyList out) (Some b) = Inr (filter_repetitions out)
     \<and> (filter_ctc_output (PyList out) (Some b) = Inr out
          \<longleftrightarrow> (\<forall>i. Suc i < length out \<longrightarrow> out ! i \<noteq> out ! Suc i))
     \<and> (b \<notin> set s \<longrightarrow> filter_ctc_output (PyList out) (Some b) = Inr out)"
proof -
  define out where "out = filter (\<lambda>e. e \<noteq> b) (remdups_adj s)"
  have first: "filter_ctc_output (PyList s) (Some b) = Inr out"
    by (simp add: filter_ctc_output_list out_def)
  have "b \<notin> set (remdups_adj out)"
    by (simp add: out_def)
  then have second: "filter_ctc_output (PyList out) (Some b) = Inr (remdups_adj out)"
    by (simp add: filter_ctc_output_list filter_blank_absent)
  have fixed: "b \<notin> set s \<Longrightarrow> remdups_adj out = out"
    by (simp add: out_def filter_blank_absent remdups_adj_twice)
  show ?thesis
    using first second fixed
    by (intro exI [of _ out]) (simp add: filter_repetitions_remdups_adj no_adjacent_iff)
qed

theorem filter_ctc_output_twice_witness:
  "PyInt 0 \<notin> set [PyInt 1, PyInt 1, PyInt 2]
   \<and> filter_ctc_output (PyList [PyInt 1, PyInt 1, PyInt 2]) (Some (PyInt 0)) = Inr [PyInt 1, PyInt 2]
   \<and> filter_ctc_output (PyList [PyInt 1, PyInt 2]) (Some (PyInt 0)) = Inr [PyInt 1, PyInt 2]"
  using filter_ctc_output_twice [of "[PyInt 1, PyInt 1, PyInt 2]" "PyInt 0"]
  by (auto simp: filter_ctc_output_list)

text \<open>
  Claim C4, as stated: the output never holds two consecutive equal elements. It fails on
  \<open>[1, 0, 1]\<close> with blank \<open>0\<close>, whose output is \<open>[1, 1]\<close>.
\<close>

theorem filter_ctc_output_adjacent_counterexample:
  "filter_ctc_output (PyList [PyInt 1, PyInt 0, PyInt 1]) (Some (PyInt 0)) = Inr [PyInt 1, PyInt 1]
   \<and> [PyInt 1, PyInt 1] ! 0 = [PyInt 1, PyInt 1] ! Suc 0"
  by (simp add: filter_ctc_output_list)

text \<open>
  Claim C4, amended. For every list, the list left by the two merging passes, before the
  blank is removed, has no two consecutive equal elements; and when the input holds no
  element equal to the blank, neither has the output of \<^verbatim>\<open>filter_ctc_output\<close>.
\<close>

theorem filter_ctc_output_no_adjacent:
  "(\<forall>i. Suc i < length (remove_duplicates (filter_repetitions s)) \<longrightarrow>
        remove_duplicates (filter_repetitions s) ! i
          \<noteq> remove_duplicates (filter_repetitions s) ! Suc i)
   \<and> (b \<notin> set s \<longrightarrow>
        (\<exists>out. filter_ctc_output (PyList s) (Some b) = Inr out
           \<and> (\<forall>i. Suc i < length out \<longrightarrow> out ! i \<noteq> out ! Suc i)))"
  by (simp add: filter_ctc_output_list filter_blank_absent no_adjacent_iff
      remove_duplicates_remdups_adj filter_repetitions_remdups_adj remdups_adj_twice)

theorem filter_ctc_output_no_adjacent_witness:
  "PyStr ''-'' \<notin> set [PyStr ''x'', PyStr ''x'', PyStr ''y'']
   \<and> filter_ctc_output (PyList [PyStr ''x'', PyStr ''x'', PyStr ''y'']) (Some (PyStr ''-''))
       = Inr [PyStr ''x'', PyStr ''y'']
   \<and> [PyStr ''x'', PyStr ''y''] ! 0 \<noteq> [PyStr ''x'', PyStr ''y''] ! Suc 0"
  using filter_ctc_output_no_adjacent [of "[PyStr ''x'', PyStr ''x'', PyStr ''y'']" "PyStr ''-''"]
  by (auto simp: filter_ctc_output_list)

text \<open>
  Claim C7. For every list and every blank \<open>b\<close>, the call returns a list, and no
  element of that list is equal to \<open>b\<close>.
\<close>

theorem filter_ctc_output_no_blank:
  "\<exists>out. filter_ctc_output (PyList s) (Some b) = Inr out \<and> b \<notin> set out"
  by (simp add: filter_ctc_output_list)

theorem filter_ctc_output_no_blank_witness:
  "filter_ctc_output (PyList [PyInt 0, PyInt 3, PyInt 0, PyInt 0, PyInt 4]) (Some (PyInt 0))
     = Inr [PyInt 3, PyInt 4]
   \<and> PyInt 0 \<notin> set [PyInt 3, PyInt 4]"
  using filter_ctc_output_no_blank [of "[PyInt 0, PyInt 3, PyInt 0, PyInt 0, PyInt 4]" "PyInt 0"]
  by (auto simp: filter_ctc_output_list)

text \<open>
  Claim C8. The call raises exactly when its first argument is not a list, the error is
  then \<^verbatim>\<open>ValueError\<close> and nothing else is returned; on every list it returns a
  list. A tuple, although an ordered and indexable sequence, is not a list for
  \<^verbatim>\<open>isinstance\<close> and is refused like an integer or a string.
\<close>

theorem filter_ctc_output_raises_iff:
  "((\<exists>e. filter_ctc_output string_pred blank_arg = Inl e) \<longleftrightarrow> (\<forall>xs. string_pred \<noteq> PyList xs))
   \<and> ((\<forall>xs. string_pred \<noteq> PyList xs) \<longrightarrow> filter_ctc_output string_pred blank_arg = Inl ValueError)
   \<and> ((\<exists>out. filter_ctc_output string_pred blank_arg = Inr out) \<longleftrightarrow> (\<exists>xs. string_pred = PyList xs))"
  by (cases string_pred) (auto simp: filter_ctc_output_def)

theorem filter_ctc_output_raises_iff_witness:
  "(\<forall>xs. PyInt 7 \<noteq> PyList xs)
   \<and> filter_ctc_output (PyInt 7) (Some (PyInt 0)) = Inl ValueError
   \<and> (\<forall>out. filter_ctc_output (PyInt 7) (Some (PyInt 0)) \<noteq> Inr out)"
  using filter_ctc_output_raises_iff [of "PyInt 7" "Some (PyInt 0)"] by auto

text \<open>
  Claim C9. A call that gives no blank identifier is the call with blank \<open>-1\<close>, for
  every first argument; so by default the elements equal to \<open>-1\<close> are removed from
  a list.
\<close>

theorem filter_ctc_output_default_blank:
  "filter_ctc_output string_pred None = filter_ctc_output string_pred (Some (PyInt (- 1)))
   \<and> (\<exists>out. filter_ctc_output (PyList s) None = Inr out \<and> PyInt (- 1) \<notin> set out)"
proof -
  have same: "filter_ctc_output x None = filter_ctc_output x (Some (PyInt (- 1)))" for x
    by (simp add: filter_ctc_output_def)
  show ?thesis
    by (simp add: same [of "PyList s"] filter_ctc_output_list) (rule same)
qed

theorem filter_ctc_output_default_blank_witness:
  "filter_ctc_output (PyList [PyInt 5, PyInt (- 1), PyInt 5]) None = Inr [PyInt 5, PyInt 5]
   \<and> filter_ctc_output (PyList [PyInt 5, PyInt (- 1), PyInt 5]) (Some (PyInt (- 1)))
       = Inr [PyInt 5, PyInt 5]"
  using filter_ctc_output_default_blank
    [of "PyList [PyInt 5, PyInt (- 1), PyInt 5]" "[PyInt 5, PyInt (- 1), PyInt 5]"]
  by (simp add: filter_ctc_output_list)

text \<open>
  Claim C10. The three passes of the code give, on every list and for every blank, what
  the first and the third pass alone give: the pass through \<^verbatim>\<open>groupby\<close> returns
  its input unchanged, since the first pass leaves no two consecutive equal elements.
\<close>

theorem filter_ctc_output_groupby_redundant:
  "filter_ctc_output (PyList s) (Some b) = Inr (collapse_then_filter s b)
   \<and> remove_duplicates (filter_repetitions s) = filter_repetitions s
   \<and> (\<forall>i. Suc i < length (filter_repetitions s) \<longrightarrow>
          filter_repetitions s ! i \<noteq> filter_repetitions s ! Suc i)"
  by (simp add: filter_ctc_output_list collapse_then_filter_def filter_blank_def
      remove_duplicates_remdups_adj filter_repetitions_remdups_adj no_adjacent_iff
      remdups_adj_twice)

theorem filter_ctc_output_groupby_redundant_witness:
  "filter_ctc_output (PyList [PyInt 1, PyInt 1, PyInt 0, PyInt 2]) (Some (PyInt 0))
     = Inr (collapse_then_filter [PyInt 1, PyInt 1, PyInt 0, PyInt 2] (PyInt 0))
   \<and> collapse_then_filter [PyInt 1, PyInt 1, PyInt 0, PyInt 2] (PyInt 0) = [PyInt 1, PyInt 2]
   \<and> remove_duplicates [PyInt 1, PyInt 0, PyInt 2] = [PyInt 1, PyInt 0, PyInt 2]"
  using filter_ctc_output_groupby_redundant [of "[PyInt 1, PyInt 1, PyInt 0, PyInt 2]" "PyInt 0"]
  by (simp add: collapse_then_filter_def filter_blank_def filter_repetitions_remdups_adj
      remove_duplicates_remdups_adj)

section \<open>The scan for the maximum and the slices\<close>



lemma rows_length:
  "n \<le> T \<Longrightarrow> R * T \<le> length es
     \<Longrightarrow> length (concat (map (\<lambda>r. take n (drop (r * T) es)) [0..<R])) = R * n"
proof (induction R)
  case 0
  then show ?case by simp
next
  case (Suc R)
  then have "T + R * T \<le> length es" by simp
  with Suc.prems have "n \<le> length es - R * T" by linarith
  with Suc show ?case by (simp add: min_absorb2)
qed

lemma rows_nth:
  "r < R \<Longrightarrow> j < n \<Longrightarrow> n \<le> T \<Longrightarrow> R * T \<le> length es
     \<Longrightarrow> concat (map (\<lambda>r. take n (drop (r * T) es)) [0..<R]) ! (r * n + j) = es ! (r * T + j)"
proof (induction R)
  case 0
  then show ?case by simp
next
  case (Suc R)
  have len: "length (concat (map (\<lambda>r. take n (drop (r * T) es)) [0..<R])) = R * n"
    using Suc.prems by (intro rows_length) simp_all
  show ?case
  proof (cases "r < R")
    case True
    then have "Suc r \<le> R" by simp
    then have "Suc r * n \<le> R * n" by (rule mult_le_mono1)
    with \<open>j < n\<close> have "r * n + j < R * n" by simp
    with Suc True len show ?thesis by (simp add: nth_append)
  next
    case False
    with Suc.prems have "r = R" by simp
    with Suc.prems len show ?thesis by (simp add: nth_append)
  qed
qed

lemma tolist_vector:
  "tolist \<lparr>shape = [length es], elems = es\<rparr> = PyList (map PyInt es)"
proof -
  have "map (\<lambda>i. tolist_from [] (take (numel []) (drop (i * numel []) es))) [0..<length es]
      = map (\<lambda>i. PyInt (es ! i)) [0..<length es]"
    by (rule map_cong) (simp_all add: numel_def hd_drop_conv_nth)
  also have "\<dots> = map PyInt (map (\<lambda>i. es ! i) [0..<length es])"
    by simp
  also have "\<dots> = map PyInt es"
    by (simp only: map_nth)
  finally show ?thesis by (simp add: tolist_def)
qed

lemma decode_example_matrix:
  assumes shp: "shape seq = [V, T]" and len: "length (elems seq) = V * T" and V: "0 < V"
    and size: "actual_size l T = Inr (int n)" and n: "n \<le> T"
  shows "decode_example T b seq l =
           filter_ctc_output
             (PyList (map (\<lambda>k. PyInt (int k)) (greedy_path (elems seq) V T n))) (Some b)"
proof -
  define es' where "es' = concat (map (\<lambda>r. take n (drop (r * T) (elems seq))) [0..<V])"
  have narrow: "narrow_last seq (int n) = Inr \<lparr>shape = [V, n], elems = es'\<rparr>"
    using n by (simp add: narrow_last_def shp numel_def es'_def)
  have cols: "map (\<lambda>i. es' ! (i * n + t)) [0..<V] = map (\<lambda>v. elems seq ! (v * T + t)) [0..<V]"
    if "t < n" for t
    by (rule map_cong) (use that n len in \<open>simp_all add: es'_def rows_nth\<close>)
  define preds where "preds = map (\<lambda>k. int k) (greedy_path (elems seq) V T n)"
  have "length preds = n" by (simp add: preds_def greedy_path_def)
  have max: "\<exists>scores. torch_max_dim0 \<lparr>shape = [V, n], elems = es'\<rparr>
      = Inr (scores, \<lparr>shape = [n], elems = preds\<rparr>)"
    using V by (simp add: torch_max_dim0_def numel_def preds_def greedy_path_def o_def cols)
  then obtain scores where max': "torch_max_dim0 \<lparr>shape = [V, n], elems = es'\<rparr>
      = Inr (scores, \<lparr>shape = [n], elems = preds\<rparr>)" by blast
  have "tolist \<lparr>shape = [n], elems = preds\<rparr> = PyList (map PyInt preds)"
    using tolist_vector [of preds] \<open>length preds = n\<close> by simp
  then have "decode_example T b seq l = filter_ctc_output (PyList (map PyInt preds)) (Some b)"
    by (simp add: decode_example_def size narrow max')
  then show ?thesis
    by (simp add: preds_def o_def)
qed

lemma decode_example_out_of_range:
  assumes "shape seq = [V, T]" and "actual_size l T = Inr a" and "a < 0 \<or> int T < a"
  shows "decode_example T b seq l = Inl RuntimeError"
  using assms by (auto simp: decode_example_def narrow_last_def)

lemma decode_example_no_size:
  assumes "actual_size l T = Inl e"
  shows "decode_example T b seq l = Inl e"
  using assms by (simp add: decode_example_def)

lemma decode_loop_ok:
  "\<forall>x\<in>set ps. decode_example T b (fst x) (snd x) = Inr (f x)
     \<Longrightarrow> decode_loop T b ps acc = Inr (acc @ map f ps)"
proof (induction ps arbitrary: acc)
  case Nil
  then show ?case by simp
next
  case (Cons x ps)
  obtain seq l where x: "x = (seq, l)" by (cases x)
  from Cons.prems have "decode_example T b seq l = Inr (f x)" by (simp add: x)
  moreover have "decode_loop T b ps (acc @ [f x]) = Inr ((acc @ [f x]) @ map f ps)"
    by (rule Cons.IH) (use Cons.prems in simp)
  ultimately show ?case by (simp add: x)
qed

lemma decode_loop_error_from:
  "decode_loop T b ps acc = Inl e \<Longrightarrow> \<exists>x\<in>set ps. decode_example T b (fst x) (snd x) = Inl e"
proof (induction ps arbitrary: acc)
  case Nil
  then show ?case by simp
next
  case (Cons x ps)
  obtain seq l where x: "x = (seq, l)" by (cases x)
  show ?case
  proof (cases "decode_example T b seq l")
    case (Inl e')
    with Cons.prems show ?thesis by (simp add: x)
  next
    case (Inr out)
    with Cons.prems have "decode_loop T b ps (acc @ [out]) = Inl e" by (simp add: x)
    then show ?thesis using Cons.IH by auto
  qed
qed

lemma decode_loop_raises:
  "x \<in> set ps \<Longrightarrow> decode_example T b (fst x) (snd x) = Inl e
     \<Longrightarrow> \<exists>e'. decode_loop T b ps acc = Inl e'"
proof (induction ps arbitrary: acc)
  case Nil
  then show ?case by simp
next
  case (Cons y ps)
  obtain seq l where y: "y = (seq, l)" by (cases y)
  show ?case
  proof (cases "decode_example T b seq l")
    case (Inl e')
    then show ?thesis by (simp add: y)
  next
    case (Inr out)
    with Cons.prems have "x \<in> set ps" by (auto simp: y)
    then have "\<exists>e'. decode_loop T b ps (acc @ [out]) = Inl e'"
      using Cons.prems(2) by (rule Cons.IH)
    with Inr show ?thesis by (simp add: y)
  qed
qed

lemma ctc_greedy_decode_loop:
  assumes "shape p = d # ds"
  shows "ctc_greedy_decode p lens b
           = decode_loop (last (d # ds)) b (zip (map (select0 p) [0..<d]) lens) []"
  using assms by (simp add: ctc_greedy_decode_def shape_last_def tensor_iter_def)


lemma select0_length:
  assumes "shape p = [B, V, T]" and "length (elems p) = B * V * T" and "i < B"
  shows "length (elems (select0 p i)) = V * T"
proof -
  have "Suc i * (V * T) \<le> B * (V * T)" using \<open>i < B\<close> by (intro mult_le_mono1) simp
  then have "V * T \<le> length (elems p) - i * (V * T)"
    using assms(2) by (simp add: mult.assoc)
  then show ?thesis
    using assms(1) by (simp add: select0_def numel_def min_absorb2)
qed


lemma zip_map_upt:
  "zip (map g [0..<B]) lens = map (\<lambda>i. (g i, lens ! i)) [0..<min B (length lens)]"
  by (rule nth_equalityI) simp_all

lemma select0_shape: "shape p = d # ds \<Longrightarrow> shape (select0 p i) = ds"
  by (simp add: select0_def)


section \<open>Rounding\<close>

lemma round_half_even_bounds: "\<lfloor>x\<rfloor> \<le> round_half_even x \<and> round_half_even x \<le> \<lfloor>x\<rfloor> + 1"
  by (simp add: round_half_even_def Let_def)

lemma round_half_even_of_int: "round_half_even (of_int k) = k"
  by (simp add: round_half_even_def Let_def)

lemma round_half_even_le:
  assumes "x \<le> of_int m"
  shows "round_half_even x \<le> m"
proof (cases "x = of_int m")
  case True
  then show ?thesis by (simp add: round_half_even_of_int)
next
  case False
  with assms have "x < of_int m" by simp
  then have "\<lfloor>x\<rfloor> < m" by (simp only: floor_less_iff)
  then show ?thesis using round_half_even_bounds [of x] by linarith
qed

lemma round_half_even_ge:
  assumes "of_int m \<le> x"
  shows "m \<le> round_half_even x"
proof -
  from assms have "m \<le> \<lfloor>x\<rfloor>" by (simp only: le_floor_iff)
  then show ?thesis using round_half_even_bounds [of x] by linarith
qed

lemma round_half_even_negative: "round_half_even x < 0 \<longleftrightarrow> x < - 1 / 2"
proof -
  define n where "n = \<lfloor>x\<rfloor>"
  have lo: "of_int n \<le> x" and hi: "x < of_int n + 1"
    by (simp_all add: n_def) linarith
  have rlo: "n \<le> round_half_even x" and rhi: "round_half_even x \<le> n + 1"
    using round_half_even_bounds [of x] by (simp_all only: n_def)
  consider "n \<le> - 2" | "n = - 1" | "0 \<le> n" by linarith
  then show ?thesis
  proof cases
    case 1
    then have "(of_int n :: rat) \<le> - 2" by (simp add: of_int_le_iff [of n "- 2", where ?'a = rat, simplified])
    with hi have "x < - 1 / 2" by linarith
    moreover have "round_half_even x < 0"
      using rhi 1 by linarith
    ultimately show ?thesis by simp
  next
    case 2
    then show ?thesis
      using lo hi by (auto simp: round_half_even_def Let_def n_def [symmetric])
  next
    case 3
    then have "(0 :: rat) \<le> of_int n" by simp
    with lo have "\<not> x < - 1 / 2" by linarith
    moreover have "\<not> round_half_even x < 0"
      using rlo 3 by linarith
    ultimately show ?thesis by simp
  qed
qed

lemma nearest_int_even_round: "nearest_int_even x (round_half_even x)"
proof -
  define n where "n = \<lfloor>x\<rfloor>"
  define f where "f = x - of_int n"
  have f: "0 \<le> f" "f < 1"
    by (simp_all add: f_def n_def) linarith
  have x: "x = of_int n + f" by (simp add: f_def)
  have rhe: "round_half_even x =
      (if f < 1 / 2 then n else if 1 / 2 < f then n + 1 else if even n then n else n + 1)"
    by (simp only: round_half_even_def Let_def n_def f_def)
  consider "f < 1 / 2" | "1 / 2 < f" | "f = 1 / 2" by linarith
  then show ?thesis
  proof cases
    case 1
    then have "round_half_even x = n" by (simp add: rhe)
    with 1 f show ?thesis by (simp add: nearest_int_even_def x)
  next
    case 2
    then have "round_half_even x = n + 1" by (simp add: rhe)
    with 2 f show ?thesis by (simp add: nearest_int_even_def x abs_if)
  next
    case 3
    then have "round_half_even x = (if even n then n else n + 1)" by (simp add: rhe)
    with 3 show ?thesis by (simp add: nearest_int_even_def x)
  qed
qed

lemma nearest_int_even_unique:
  assumes "nearest_int_even x m" and "nearest_int_even x n"
  shows "m = n"
proof (rule ccontr)
  assume "m \<noteq> n"
  have dm: "\<bar>x - of_int m\<bar> \<le> 1 / 2" and dn: "\<bar>x - of_int n\<bar> \<le> 1 / 2"
    using assms by (simp_all add: nearest_int_even_def)
  have "\<bar>(of_int m :: rat) - of_int n\<bar> \<le> 1" using dm dn by linarith
  then have "\<bar>of_int (m - n) :: rat\<bar> \<le> of_int 1" by simp
  then have "\<bar>m - n\<bar> \<le> 1" by (simp only: of_int_abs [symmetric] of_int_le_iff)
  with \<open>m \<noteq> n\<close> have mn: "m = n + 1 \<or> n = m + 1" by linarith
  then have "\<bar>(of_int m :: rat) - of_int n\<bar> = 1" by auto
  with dm dn have "\<bar>x - of_int m\<bar> = 1 / 2" and "\<bar>x - of_int n\<bar> = 1 / 2" by linarith+
  with assms have "even m" and "even n" by (simp_all add: nearest_int_even_def)
  with mn show False by auto
qed

lemma ilog2_lower:
  assumes "0 < x"
  shows "2 powi ilog2 x \<le> x"
proof (cases "1 \<le> x")
  case True
  then have pos: "0 < \<lfloor>x\<rfloor>" by simp
  then have "1 \<le> bitlen \<lfloor>x\<rfloor>" by (simp add: bitlen_alt_def)
  then have "(2::rat) powi (bitlen \<lfloor>x\<rfloor> - 1) = 2 ^ nat (bitlen \<lfloor>x\<rfloor> - 1)"
    by (simp add: power_int_nonneg_exp)
  also have "\<dots> = of_int (2 ^ nat (bitlen \<lfloor>x\<rfloor> - 1))" by simp
  also have "\<dots> \<le> of_int \<lfloor>x\<rfloor>"
    using bitlen_bounds [OF pos] by (simp only: of_int_le_iff)
  also have "\<dots> \<le> x" by simp
  finally show ?thesis using True by (simp add: ilog2_def)
next
  case False
  define m where "m = \<lceil>1 / x\<rceil>"
  define c where "c = bitlen (m - 1)"
  have "1 < 1 / x" using False assms by simp
  then have "1 < m" by (simp add: m_def less_ceiling_iff)
  then have pos: "0 < m - 1" by simp
  have "0 \<le> c" by (simp add: c_def bitlen_nonneg)
  have "m - 1 < 2 ^ nat c"
    using bitlen_bounds [OF pos] by (simp add: c_def)
  then have "m \<le> 2 ^ nat c" by simp
  then have "(of_int m :: rat) \<le> of_int (2 ^ nat c)" by (simp only: of_int_le_iff)
  also have "\<dots> = 2 ^ nat c" by simp
  finally have "(of_int m :: rat) \<le> 2 ^ nat c" .
  moreover have "1 / x \<le> of_int m" by (simp add: m_def)
  ultimately have "1 / x \<le> 2 ^ nat c" by linarith
  then have "1 \<le> 2 ^ nat c * x" using assms by (simp add: field_simps)
  then have "1 / 2 ^ nat c \<le> x" by (simp add: field_simps)
  moreover have "(2::rat) powi (- c) = 1 / 2 ^ nat c"
    using \<open>0 \<le> c\<close> by (simp add: power_int_minus_divide power_int_nonneg_exp)
  ultimately show ?thesis using False by (simp add: ilog2_def m_def c_def)
qed

lemma ilog2_upper:
  assumes "0 < x"
  shows "x < 2 powi (ilog2 x + 1)"
proof (cases "1 \<le> x")
  case True
  then have pos: "0 < \<lfloor>x\<rfloor>" by simp
  have "0 \<le> bitlen \<lfloor>x\<rfloor>" by (rule bitlen_nonneg)
  have "\<lfloor>x\<rfloor> < 2 ^ nat (bitlen \<lfloor>x\<rfloor>)"
    using bitlen_bounds [OF pos] by simp
  then have "x < of_int (2 ^ nat (bitlen \<lfloor>x\<rfloor>))" by (simp only: floor_less_iff)
  also have "\<dots> = 2 powi (bitlen \<lfloor>x\<rfloor>)"
    using \<open>0 \<le> bitlen \<lfloor>x\<rfloor>\<close> by (simp add: power_int_nonneg_exp)
  finally show ?thesis using True by (simp add: ilog2_def)
next
  case False
  define m where "m = \<lceil>1 / x\<rceil>"
  define c where "c = bitlen (m - 1)"
  have "1 < 1 / x" using False assms by simp
  then have "1 < m" by (simp add: m_def less_ceiling_iff)
  then have pos: "0 < m - 1" by simp
  then have "1 \<le> c" by (simp add: c_def bitlen_alt_def)
  have "2 ^ nat (c - 1) \<le> m - 1"
    using bitlen_bounds [OF pos] by (simp add: c_def)
  then have "2 ^ nat (c - 1) < m" by simp
  then have "of_int (2 ^ nat (c - 1)) < 1 / x" by (simp only: m_def less_ceiling_iff)
  then have "2 ^ nat (c - 1) < 1 / x" by simp
  then have "2 ^ nat (c - 1) * x < 1" using assms by (simp add: field_simps)
  then have "x < 1 / 2 ^ nat (c - 1)" by (simp add: field_simps)
  moreover have "(2::rat) powi (- c + 1) = 1 / 2 ^ nat (c - 1)"
  proof -
    have "- c + 1 = - (c - 1)" by simp
    then have "(2::rat) powi (- c + 1) = 1 / 2 powi (c - 1)"
      by (simp only: power_int_minus_divide)
    then show ?thesis using \<open>1 \<le> c\<close> by (simp add: power_int_nonneg_exp)
  qed
  ultimately show ?thesis using False by (simp add: ilog2_def m_def c_def)
qed

lemma round_f32_range:
  assumes x0: "0 \<le> x" and xT: "x \<le> of_nat T" and T: "T \<le> 2 ^ 24"
  shows "\<exists>y. round_f32 x = Fin y \<and> 0 \<le> y \<and> y \<le> of_nat T"
proof (cases "x = 0")
  case True
  then show ?thesis by (simp add: round_f32_def)
next
  case False
  with x0 have pos: "0 < x" by simp
  define e where "e = max (ilog2 x) (- 126)"
  define q :: rat where "q = 2 powi (e - 23)"
  define m where "m = round_half_even (x / q)"
  define y where "y = of_int m * q"
  have q: "0 < q" by (simp add: q_def)
  have "of_int 0 \<le> x / q" using pos q by simp
  then have m0: "0 \<le> m" unfolding m_def by (rule round_half_even_ge)
  then have y0: "0 \<le> y" using q by (simp add: y_def)
  have yT: "y \<le> of_nat T"
  proof (cases "e \<le> 23")
    case True
    define N where "N = (2::int) ^ nat (23 - e)"
    have "q = 1 / 2 powi (23 - e)"
      using power_int_minus_divide [of "2::rat" "23 - e"] by (simp add: q_def)
    also have "\<dots> = 1 / of_int N"
      using True by (simp add: N_def power_int_nonneg_exp)
    finally have qN: "q = 1 / of_int N" .
    have "x / q = x * of_int N" by (simp add: qN)
    also have "\<dots> \<le> of_nat T * of_int N"
      using xT by (intro mult_right_mono) (simp_all add: N_def)
    also have "\<dots> = of_int (int T * N)" by simp
    finally have "m \<le> int T * N" unfolding m_def by (rule round_half_even_le)
    then have "(of_int m :: rat) \<le> of_int (int T * N)" by (simp only: of_int_le_iff)
    then have "of_int m * q \<le> of_int (int T * N) * q"
      using q by (intro mult_right_mono) simp_all
    also have "\<dots> = of_nat T" by (simp add: qN N_def)
    finally show ?thesis by (simp add: y_def)
  next
    case False
    then have e: "e = ilog2 x" and "24 \<le> e" by (simp_all add: e_def max_def split: if_splits)
    have "2 powi e \<le> x" unfolding e using pos by (rule ilog2_lower)
    also have "x \<le> of_nat T" by (rule xT)
    also have "(of_nat T :: rat) \<le> 2 ^ 24"
      using T by (metis of_nat_le_iff of_nat_numeral of_nat_power)
    finally have le: "(2::rat) powi e \<le> 2 powi 24" by simp
    then have "e \<le> 24"
      by (rule power_int_le_imp_le_exp [rotated]) simp_all
    with \<open>24 \<le> e\<close> have "e = 24" by simp
    with \<open>2 powi e \<le> x\<close> have "2 ^ 24 \<le> x" by simp
    moreover have "x \<le> 2 ^ 24"
      using xT \<open>(of_nat T :: rat) \<le> 2 ^ 24\<close> by simp
    ultimately have x: "x = 2 ^ 24" by simp
    have "of_nat T = x"
      using xT \<open>(of_nat T :: rat) \<le> 2 ^ 24\<close> by (simp only: x)
    have "q = 2" by (simp add: q_def \<open>e = 24\<close>)
    then have "x / q = of_int (2 ^ 23)" by (simp add: x)
    then have "m = 2 ^ 23" by (simp only: m_def round_half_even_of_int)
    then have "y = x" by (simp add: y_def \<open>q = 2\<close> x)
    then show ?thesis using \<open>of_nat T = x\<close> by simp
  qed
  have "(of_nat T :: rat) \<le> 2 ^ 24"
    using T by (metis of_nat_le_iff of_nat_numeral of_nat_power)
  with yT y0 have "\<not> 2 ^ 128 \<le> \<bar>y\<bar>" by simp
  then have "round_f32 x = Fin y"
    using pos by (simp add: round_f32_def Let_def e_def [symmetric] q_def [symmetric]
        m_def [symmetric] y_def [symmetric])
  with y0 yT show ?thesis by simp
qed

lemma round_half_even_zero_iff: "round_half_even x = 0 \<longleftrightarrow> - 1 / 2 \<le> x \<and> x \<le> 1 / 2"
proof
  assume "round_half_even x = 0"
  with nearest_int_even_round [of x] have "\<bar>x\<bar> \<le> 1 / 2"
    by (simp add: nearest_int_even_def)
  then show "- 1 / 2 \<le> x \<and> x \<le> 1 / 2" by linarith
next
  assume "- 1 / 2 \<le> x \<and> x \<le> 1 / 2"
  then have "\<bar>x\<bar> \<le> 1 / 2" by linarith
  then have "nearest_int_even x 0" by (simp add: nearest_int_even_def)
  then show "round_half_even x = 0"
    using nearest_int_even_round [of x] by (rule nearest_int_even_unique [symmetric])
qed

section \<open>Sizes and the loop\<close>

lemma actual_size_finite:
  assumes "f32_mul l (f32_of_int (int T)) = Fin x"
  shows "actual_size l T = Inr (round_half_even x)"
  using assms by (simp add: actual_size_def)


lemma actual_size_zero:
  assumes "T \<le> 2 ^ 24"
  shows "actual_size (Fin 0) T = Inr 0"
proof -
  have "\<exists>t. round_f32 (of_nat T) = Fin t \<and> 0 \<le> t \<and> t \<le> of_nat T"
    using assms by (intro round_f32_range) simp_all
  then obtain t where "f32_of_int (int T) = Fin t" by (auto simp: f32_of_int_def)
  then have "f32_mul (Fin 0) (f32_of_int (int T)) = Fin 0"
    by (simp add: round_f32_def)
  then have "actual_size (Fin 0) T = Inr (round_half_even 0)"
    by (rule actual_size_finite)
  then show ?thesis by (simp add: round_half_even_def)
qed

lemma decode_example_in_range:
  assumes "shape p = [B, V, T]" and "length (elems p) = B * V * T" and "0 < V" and "i < B"
    and "actual_size l T = Inr (int n)" and "n \<le> T"
  shows "decode_example T b (select0 p i) l = Inr (decoded V T b (select0 p i) n)"
proof -
  have "shape (select0 p i) = [V, T]"
    using assms(1) by (simp add: select0_shape)
  moreover have "length (elems (select0 p i)) = V * T"
    using assms(1,2,4) by (rule select0_length)
  ultimately have "decode_example T b (select0 p i) l =
      filter_ctc_output
        (PyList (map (\<lambda>k. PyInt (int k)) (greedy_path (elems (select0 p i)) V T n))) (Some b)"
    using assms(3,5,6) by (rule decode_example_matrix)
  then show ?thesis
    by (simp add: decoded_def filter_ctc_output_list collapse_then_filter_def filter_blank_def
        filter_repetitions_remdups_adj)
qed

lemma ctc_greedy_decode_rank3:
  assumes shp: "shape p = [B, V, T]" and len: "length (elems p) = B * V * T" and V: "0 < V"
    and range: "\<forall>i<min B (length lens). \<exists>n. actual_size (lens ! i) T = Inr (int n) \<and> n \<le> T"
  shows "ctc_greedy_decode p lens b
           = Inr (map (\<lambda>i. decoded V T b (select0 p i) (nat (projr (actual_size (lens ! i) T))))
                      [0..<min B (length lens)])"
proof -
  let ?ps = "map (\<lambda>i. (select0 p i, lens ! i)) [0..<min B (length lens)]"
  let ?f = "\<lambda>x. decoded V T b (fst x) (nat (projr (actual_size (snd x) T)))"
  have "\<forall>x\<in>set ?ps. decode_example T b (fst x) (snd x) = Inr (?f x)"
  proof
    fix x assume "x \<in> set ?ps"
    then obtain i where i: "i < min B (length lens)" and x: "x = (select0 p i, lens ! i)"
      by auto
    from range i obtain n where n: "actual_size (lens ! i) T = Inr (int n)" "n \<le> T" by blast
    have "decode_example T b (select0 p i) (lens ! i) = Inr (decoded V T b (select0 p i) n)"
      using shp len V _ n by (rule decode_example_in_range) (use i in simp)
    then show "decode_example T b (fst x) (snd x) = Inr (?f x)"
      by (simp add: x n(1))
  qed
  then have "decode_loop T b ?ps [] = Inr ([] @ map ?f ?ps)"
    by (rule decode_loop_ok)
  moreover have "ctc_greedy_decode p lens b = decode_loop T b ?ps []"
    using shp by (simp add: ctc_greedy_decode_loop zip_map_upt)
  ultimately show ?thesis by (simp add: o_def)
qed

lemma decode_example_error:
  assumes "shape p = [B, V, T]" and "length (elems p) = B * V * T" and "0 < V" and "i < B"
    and "decode_example T b (select0 p i) l = Inl e" and "actual_size l T = Inr a"
  shows "e = RuntimeError \<and> (a < 0 \<or> int T < a)"
proof (cases "a < 0 \<or> int T < a")
  case True
  moreover have "shape (select0 p i) = [V, T]"
    using assms(1) by (simp add: select0_shape)
  ultimately show ?thesis
    using assms(5,6) decode_example_out_of_range [of "select0 p i" V T l a b] by simp
next
  case False
  then have "actual_size l T = Inr (int (nat a))"
    using assms(6) by simp
  moreover have "nat a \<le> T"
    using False by linarith
  ultimately have
    "decode_example T b (select0 p i) l = Inr (decoded V T b (select0 p i) (nat a))"
    using assms(1-4) by (intro decode_example_in_range)
  with assms(5) show ?thesis by simp
qed

lemma ctc_greedy_decode_rank3_error:
  assumes shp: "shape p = [B, V, T]" and len: "length (elems p) = B * V * T" and V: "0 < V"
    and i: "i < B" "i < length lens"
    and sizes: "\<forall>j<min B (length lens). \<exists>a. actual_size (lens ! j) T = Inr a"
    and bad: "actual_size (lens ! i) T = Inr a" "a < 0 \<or> int T < a"
  shows "ctc_greedy_decode p lens b = Inl RuntimeError"
proof -
  let ?ps = "map (\<lambda>i. (select0 p i, lens ! i)) [0..<min B (length lens)]"
  have loop: "ctc_greedy_decode p lens b = decode_loop T b ?ps []"
    using shp by (simp add: ctc_greedy_decode_loop zip_map_upt)
  have "shape (select0 p i) = [V, T]"
    using shp by (simp add: select0_shape)
  then have "decode_example T b (select0 p i) (lens ! i) = Inl RuntimeError"
    using bad by (rule decode_example_out_of_range)
  moreover have "(select0 p i, lens ! i) \<in> set ?ps"
    using i by simp
  ultimately obtain e where e: "decode_loop T b ?ps [] = Inl e"
    using decode_loop_raises [of "(select0 p i, lens ! i)" ?ps T b RuntimeError "[]"] by auto
  then obtain x where "x \<in> set ?ps" and "decode_example T b (fst x) (snd x) = Inl e"
    using decode_loop_error_from by blast
  then obtain j where j: "j < min B (length lens)"
    and "decode_example T b (select0 p j) (lens ! j) = Inl e"
    by auto
  moreover from sizes j obtain a' where "actual_size (lens ! j) T = Inr a'" by blast
  ultimately have "e = RuntimeError"
    using decode_example_error [OF shp len V, of j b "lens ! j" e a'] by simp
  with e loop show ?thesis by simp
qed

lemma tolist_from_list: "s \<noteq> [] \<Longrightarrow> \<exists>xs. tolist_from s es = PyList xs"
  by (cases s) simp_all

lemma decode_example_high_rank:
  assumes rank: "2 \<le> length (shape seq)" and V: "0 < hd (shape seq)"
    and size: "actual_size l T = Inr a" and a: "0 \<le> a" "a \<le> int (last (shape seq))"
  shows "\<exists>out. decode_example T b seq l = Inr out"
proof -
  from rank obtain V' d ds where shp: "shape seq = V' # d # ds"
    by (cases "shape seq"; cases "tl (shape seq)") auto
  define rest where "rest = butlast (d # ds) @ [nat a]"
  have nonempty: "rest \<noteq> []" by (simp add: rest_def)
  obtain es where narrow: "narrow_last seq a = Inr \<lparr>shape = V' # rest, elems = es\<rparr>"
    using a by (simp add: narrow_last_def shp rest_def)
  obtain scores ps where max:
    "torch_max_dim0 \<lparr>shape = V' # rest, elems = es\<rparr>
       = Inr (scores, \<lparr>shape = rest, elems = ps\<rparr>)"
    using V by (simp add: torch_max_dim0_def shp Let_def)
  obtain xs where "tolist \<lparr>shape = rest, elems = ps\<rparr> = PyList xs"
    using tolist_from_list [OF nonempty] by (auto simp: tolist_def)
  then show ?thesis
    by (simp add: decode_example_def size narrow max filter_ctc_output_def)
qed

lemma decode_example_low_rank:
  assumes "length (shape seq) < 2"
  shows "\<exists>e. decode_example T b seq l = Inl e"
proof (cases "actual_size l T")
  case (Inl e)
  then show ?thesis by (simp add: decode_example_def)
next
  case (Inr a)
  show ?thesis
  proof (cases "shape seq")
    case Nil
    then show ?thesis by (simp add: decode_example_def Inr narrow_last_def)
  next
    case (Cons m ms)
    with assms have shp: "shape seq = [m]" by simp
    show ?thesis
    proof (cases "a < 0 \<or> int m < a")
      case True
      then show ?thesis by (auto simp: decode_example_def Inr narrow_last_def shp)
    next
      case False
      then obtain es where narrow:
        "narrow_last seq a = Inr \<lparr>shape = [nat a], elems = es\<rparr>"
        by (simp add: narrow_last_def shp)
      show ?thesis
      proof (cases "nat a = 0")
        case True
        then show ?thesis
          by (simp add: decode_example_def Inr narrow torch_max_dim0_def)
      next
        case False
        then show ?thesis
          by (simp add: decode_example_def Inr narrow torch_max_dim0_def numel_def Let_def
              tolist_def filter_ctc_output_def)
      qed
    qed
  qed
qed

lemma ctc_greedy_decode_low_rank:
  assumes "shape p = [] \<or> (length (shape p) < 3 \<and> 0 < hd (shape p) \<and> lens \<noteq> [])"
  shows "\<exists>e. ctc_greedy_decode p lens b = Inl e"
proof (cases "shape p")
  case Nil
  then show ?thesis by (simp add: ctc_greedy_decode_def shape_last_def)
next
  case (Cons d ds)
  with assms have d: "0 < d" and ds: "length ds < 2" and lens: "lens \<noteq> []" by simp_all
  let ?ps = "map (\<lambda>i. (select0 p i, lens ! i)) [0..<min d (length lens)]"
  have loop: "ctc_greedy_decode p lens b = decode_loop (last (d # ds)) b ?ps []"
    using Cons by (simp only: ctc_greedy_decode_loop zip_map_upt)
  define T where "T = last (d # ds)"
  have "shape (select0 p 0) = ds"
    using Cons by (rule select0_shape)
  with ds have "length (shape (select0 p 0)) < 2" by simp
  then have "\<exists>e. decode_example T b (select0 p 0) (lens ! 0) = Inl e"
    by (rule decode_example_low_rank)
  then obtain e where "decode_example T b (select0 p 0) (lens ! 0) = Inl e" ..
  moreover have "(select0 p 0, lens ! 0) \<in> set ?ps"
    using d lens by simp
  ultimately show ?thesis
    using decode_loop_raises [of "(select0 p 0, lens ! 0)" ?ps T b e "[]"] loop
    by (simp add: T_def)
qed

lemma ctc_greedy_decode_high_rank:
  assumes shp: "shape p = B # V # ds" and ds: "ds \<noteq> []" and V: "0 < V"
    and range: "\<forall>i<min B (length lens).
                  \<exists>a. actual_size (lens ! i) (last ds) = Inr a \<and> 0 \<le> a \<and> a \<le> int (last ds)"
  shows "\<exists>outs. ctc_greedy_decode p lens b = Inr outs
           \<and> length outs = min B (length lens)
           \<and> (\<forall>i<min B (length lens).
                 decode_example (last ds) b (select0 p i) (lens ! i) = Inr (outs ! i))"
proof -
  let ?ps = "map (\<lambda>i. (select0 p i, lens ! i)) [0..<min B (length lens)]"
  let ?f = "\<lambda>x. projr (decode_example (last ds) b (fst x) (snd x))"
  have each: "\<exists>out. decode_example (last ds) b (select0 p i) (lens ! i) = Inr out"
    if "i < min B (length lens)" for i
  proof -
    from range that obtain a where a:
      "actual_size (lens ! i) (last ds) = Inr a" "0 \<le> a" "a \<le> int (last ds)" by blast
    have s: "shape (select0 p i) = V # ds" using shp by (rule select0_shape)
    have "2 \<le> length (shape (select0 p i))"
      using s ds by (cases ds) simp_all
    moreover have "0 < hd (shape (select0 p i))"
      using s V by simp
    moreover have "a \<le> int (last (shape (select0 p i)))"
      using s ds a(3) by simp
    ultimately show ?thesis
      using a(1,2) by (intro decode_example_high_rank)
  qed
  have each': "decode_example (last ds) b (select0 p i) (lens ! i)
      = Inr (projr (decode_example (last ds) b (select0 p i) (lens ! i)))"
    if "i < min B (length lens)" for i
    using each [OF that] by auto
  have "\<forall>x\<in>set ?ps. decode_example (last ds) b (fst x) (snd x) = Inr (?f x)"
    using each' by auto
  then have "decode_loop (last ds) b ?ps [] = Inr ([] @ map ?f ?ps)"
    by (rule decode_loop_ok)
  moreover have "ctc_greedy_decode p lens b = decode_loop (last ds) b ?ps []"
    using shp ds by (simp add: ctc_greedy_decode_loop zip_map_upt)
  ultimately have run: "ctc_greedy_decode p lens b = Inr (map ?f ?ps)" by simp
  show ?thesis
  proof (intro exI [of _ "map ?f ?ps"] conjI allI impI)
    show "ctc_greedy_decode p lens b = Inr (map ?f ?ps)" by (rule run)
    show "length (map ?f ?ps) = min B (length lens)" by simp
    show "decode_example (last ds) b (select0 p i) (lens ! i) = Inr (map ?f ?ps ! i)"
      if "i < min B (length lens)" for i
      using each' [OF that] that by simp
  qed
qed

lemma decoded_empty: "decoded V T b seq 0 = []"
  by (simp add: decoded_def greedy_path_def collapse_then_filter_def filter_blank_def
      filter_repetitions_def)

text \<open>
  The size at some inputs where the rounding of the product decides: the single-precision
  numbers nearest to \<open>0.1\<close>, \<open>-0.1\<close> and \<open>0.51\<close>, a relative length
  above \<open>1\<close>, and a number of time steps that is not a single-precision number.
\<close>

lemma actual_size_examples:
  "actual_size (Fin (13421773 / 134217728)) 5 = Inr 0"
  "actual_size (Fin (- 13421773 / 134217728)) 5 = Inr 0"
  "actual_size (Fin (9786709 / 8388608)) 3 = Inr 4"
  "actual_size (Fin (2139095 / 4194304)) 2 = Inr 1"
  "actual_size (Fin 1) 2 = Inr 2"
  "actual_size (Fin 0) 2 = Inr 0"
  "actual_size (Fin (- 1 / 4)) 2 = Inr 0"
  "actual_size (Fin (- 1)) 2 = Inr (- 2)"
  "actual_size PInf 2 = Inl OverflowError"
  "actual_size NaN 2 = Inl ValueError"
  by code_simp+


section \<open>Properties of \<^verbatim>\<open>ctc_greedy_decode\<close>\<close>




text \<open>
  Claim C5, as stated: the call raises when the length vector is not of size \<open>B\<close>
  or the scores are not of rank 3, and never truncates silently. It fails on both counts.
  With two examples and one relative length, \<^verbatim>\<open>zip\<close> stops after the first pair and the
  call returns one sequence; with scores of shape \<open>(2, 2, 1, 2)\<close> the call returns
  nested lists.
\<close>

theorem ctc_greedy_decode_no_shape_check_counterexample:
  "length [Fin 1] \<noteq> hd (shape \<lparr>shape = [2, 2, 2],
       elems = [3 / 10, 0, 7 / 10, 0, 2 / 10, 9 / 10, 8 / 10, 1 / 10 :: rat]\<rparr>)
   \<and> ctc_greedy_decode
        \<lparr>shape = [2, 2, 2], elems = [3 / 10, 0, 7 / 10, 0, 2 / 10, 9 / 10, 8 / 10, 1 / 10 :: rat]\<rparr>
        [Fin 1] (PyInt 0) = Inr [[PyInt 1]]
   \<and> length (shape \<lparr>shape = [2, 2, 1, 2],
       elems = [3 / 10, 0, 7 / 10, 0, 2 / 10, 9 / 10, 8 / 10, 1 / 10 :: rat]\<rparr>) \<noteq> 3
   \<and> ctc_greedy_decode
        \<lparr>shape = [2, 2, 1, 2], elems = [3 / 10, 0, 7 / 10, 0, 2 / 10, 9 / 10, 8 / 10, 1 / 10 :: rat]\<rparr>
        [Fin 1, Fin 1] (PyInt 0) = Inr [[PyList [PyInt 1, PyInt 0]], [PyList [PyInt 1, PyInt 0]]]"
  by code_simp

text \<open>
  Claim C5, amended. The function checks neither the size of the length vector nor the
  rank of the scores. For scores of rank 3 or more, of shape \<open>(B, V, \<dots>, T)\<close> with
  \<open>V > 0\<close>, and a length vector of any size \<open>n\<close> whose first \<open>min B n\<close>
  entries give sizes between \<open>0\<close> and \<open>T\<close>, it raises nothing and returns
  exactly \<open>min B n\<close> outputs, the one of index \<open>i\<close> being what the body of the
  loop makes of example \<open>i\<close> and relative length \<open>i\<close>; the other examples or
  lengths are ignored. Scores of rank below 3 make it raise as soon as one example is
  paired with a length (a scalar always). A call that raises returns the exception and no
  output for any example.
\<close>

theorem ctc_greedy_decode_no_shape_check:
  "(shape p = B # V # ds \<and> ds \<noteq> [] \<and> 0 < V
      \<and> (\<forall>i<min B (length lens).
            \<exists>a. actual_size (lens ! i) (last ds) = Inr a \<and> 0 \<le> a \<and> a \<le> int (last ds))
     \<longrightarrow> (\<exists>outs. ctc_greedy_decode p lens b = Inr outs
            \<and> length outs = min B (length lens)
            \<and> (\<forall>i<min B (length lens).
                  decode_example (last ds) b (select0 p i) (lens ! i) = Inr (outs ! i))))
   \<and> (shape p = [] \<or> (length (shape p) < 3 \<and> 0 < hd (shape p) \<and> lens \<noteq> [])
     \<longrightarrow> (\<exists>e. ctc_greedy_decode p lens b = Inl e))"
proof (intro conjI impI)
  assume "shape p = [] \<or> (length (shape p) < 3 \<and> 0 < hd (shape p) \<and> lens \<noteq> [])"
  then show "\<exists>e. ctc_greedy_decode p lens b = Inl e"
    by (rule ctc_greedy_decode_low_rank)
next
  assume a: "shape p = B # V # ds \<and> ds \<noteq> [] \<and> 0 < V
      \<and> (\<forall>i<min B (length lens).
            \<exists>a. actual_size (lens ! i) (last ds) = Inr a \<and> 0 \<le> a \<and> a \<le> int (last ds))"
  then have shp: "shape p = B # V # ds" and ds: "ds \<noteq> []" and V: "0 < V"
    and range: "\<forall>i<min B (length lens).
            \<exists>a. actual_size (lens ! i) (last ds) = Inr a \<and> 0 \<le> a \<and> a \<le> int (last ds)"
    by blast+
  then show "\<exists>outs. ctc_greedy_decode p lens b = Inr outs
            \<and> length outs = min B (length lens)
            \<and> (\<forall>i<min B (length lens).
                  decode_example (last ds) b (select0 p i) (lens ! i) = Inr (outs ! i))"
    by (rule ctc_greedy_decode_high_rank)
qed

theorem ctc_greedy_decode_no_shape_check_witness:
  "actual_size (Fin 1) 2 = Inr 2
   \<and> (\<exists>outs. ctc_greedy_decode
          \<lparr>shape = [2, 2, 2], elems = [3 / 10, 0, 7 / 10, 0, 2 / 10, 9 / 10, 8 / 10, 1 / 10 :: rat]\<rparr>
          [Fin 1] (PyInt 0) = Inr outs \<and> length outs = 1)
   \<and> (\<exists>outs. ctc_greedy_decode
          \<lparr>shape = [2, 2, 1, 2], elems = [3 / 10, 0, 7 / 10, 0, 2 / 10, 9 / 10, 8 / 10, 1 / 10 :: rat]\<rparr>
          [Fin 1, Fin 1, Fin 1] (PyInt 0) = Inr outs \<and> length outs = 2)
   \<and> length (shape \<lparr>shape = [2, 4], elems = [3 / 10, 0, 7 / 10, 0, 2 / 10, 9 / 10, 8 / 10, 1 / 10 :: rat]\<rparr>) < 3
   \<and> (\<exists>e. ctc_greedy_decode
          \<lparr>shape = [2, 4], elems = [3 / 10, 0, 7 / 10, 0, 2 / 10, 9 / 10, 8 / 10, 1 / 10 :: rat]\<rparr>
          [Fin 1, Fin 1] (PyInt 0) = Inl e)"
proof -
  have one: "actual_size (Fin 1) 2 = Inr 2" by (rule actual_size_examples)
  have r1: "\<forall>i<min 2 (length [Fin 1]).
      \<exists>a. actual_size ([Fin 1] ! i) (last [2]) = Inr a \<and> 0 \<le> a \<and> a \<le> int (last [2])"
    by (simp add: one)
  have r2: "\<forall>i<min 2 (length [Fin 1, Fin 1, Fin 1]).
      \<exists>a. actual_size ([Fin 1, Fin 1, Fin 1] ! i) (last [1, 2]) = Inr a \<and> 0 \<le> a
        \<and> a \<le> int (last [1, 2])"
  proof (intro allI impI)
    fix i :: nat
    assume "i < min 2 (length [Fin 1, Fin 1, Fin 1])"
    then have "i = 0 \<or> i = 1" by auto
    then show "\<exists>a. actual_size ([Fin 1, Fin 1, Fin 1] ! i) (last [1, 2]) = Inr a \<and> 0 \<le> a
        \<and> a \<le> int (last [1, 2])"
      by (auto simp: one)
  qed
  show ?thesis
    using ctc_greedy_decode_no_shape_check
      [of "\<lparr>shape = [2, 2, 2], elems = [3 / 10, 0, 7 / 10, 0, 2 / 10, 9 / 10, 8 / 10, 1 / 10 :: rat]\<rparr>"
          2 2 "[2]" "[Fin 1]" "PyInt 0"]
      ctc_greedy_decode_no_shape_check
      [of "\<lparr>shape = [2, 2, 1, 2], elems = [3 / 10, 0, 7 / 10, 0, 2 / 10, 9 / 10, 8 / 10, 1 / 10 :: rat]\<rparr>"
          2 2 "[1, 2]" "[Fin 1, Fin 1, Fin 1]" "PyInt 0"]
      ctc_greedy_decode_no_shape_check
      [of "\<lparr>shape = [2, 4], elems = [3 / 10, 0, 7 / 10, 0, 2 / 10, 9 / 10, 8 / 10, 1 / 10 :: rat]\<rparr>"
          0 0 "[]" "[Fin 1, Fin 1]" "PyInt 0"]
      r1 r2 one
    by auto
qed

text \<open>
  Claim C6, as stated: a relative length that is \<open>0\<close> or negative makes the call
  raise. It fails for the relative lengths \<open>0\<close> and \<open>-1/4\<close> with
  \<open>T = 2\<close>, and for the single-precision number nearest to \<open>-0.1\<close> with
  \<open>T = 5\<close> (the product is rounded to \<open>-1/2\<close>): all three give the size
  \<open>0\<close>, and the example is decoded to the empty sequence without any error.
\<close>

theorem ctc_greedy_decode_nonpositive_length_counterexample:
  "ctc_greedy_decode
     \<lparr>shape = [2, 2, 2], elems = [3 / 10, 0, 7 / 10, 0, 2 / 10, 9 / 10, 8 / 10, 1 / 10 :: rat]\<rparr>
     [Fin 0, Fin 1] (PyInt 0) = Inr [[], [PyInt 1]]
   \<and> ctc_greedy_decode
     \<lparr>shape = [2, 2, 2], elems = [3 / 10, 0, 7 / 10, 0, 2 / 10, 9 / 10, 8 / 10, 1 / 10 :: rat]\<rparr>
     [Fin (- 1 / 4), Fin 1] (PyInt 0) = Inr [[], [PyInt 1]]
   \<and> ctc_greedy_decode
     \<lparr>shape = [1, 2, 5], elems = [1, 2, 3, 4, 5, 5, 4, 3, 2, 1 :: rat]\<rparr>
     [Fin (- 13421773 / 134217728)] (PyInt 0) = Inr [[]]"
  by code_simp

text \<open>
  Claim C6, amended. For scores of shape \<open>(B, V, T)\<close> with \<open>V > 0\<close> and an
  example \<open>i\<close> paired with a relative length whose single-precision product with
  \<open>T\<close> is the finite number \<open>x\<close>: when \<open>x < -1/2\<close>, so that the size is
  negative, and every paired length has a size, the call raises \<^verbatim>\<open>RuntimeError\<close>
  (from \<^verbatim>\<open>narrow\<close>; there is no error of its own for lengths); when
  \<open>-1/2 \<le> x \<le> 1/2\<close> and the sizes of all paired lengths lie between \<open>0\<close> and
  \<open>T\<close>, the call raises nothing and the output of example \<open>i\<close> is the empty
  sequence. The relative length \<open>0\<close> has the product \<open>x = 0\<close>.
\<close>

theorem ctc_greedy_decode_nonpositive_length:
  assumes shp: "shape p = [B, V, T]" and len: "length (elems p) = B * V * T" and V: "0 < V"
    and i: "i < B" "i < length lens"
    and x: "f32_mul (lens ! i) (f32_of_int (int T)) = Fin x"
  shows "(x < - 1 / 2 \<and> (\<forall>j<min B (length lens). \<exists>a. actual_size (lens ! j) T = Inr a)
            \<longrightarrow> ctc_greedy_decode p lens b = Inl RuntimeError)
       \<and> (- 1 / 2 \<le> x \<and> x \<le> 1 / 2
            \<and> (\<forall>j<min B (length lens).
                  \<exists>n. actual_size (lens ! j) T = Inr (int n) \<and> n \<le> T)
          \<longrightarrow> (\<exists>outs. ctc_greedy_decode p lens b = Inr outs \<and> i < length outs \<and> outs ! i = []))
       \<and> (lens ! i = Fin 0 \<longrightarrow> x = 0)"
proof (intro conjI impI)
  have size: "actual_size (lens ! i) T = Inr (round_half_even x)"
    using x by (rule actual_size_finite)
  {
    assume a: "x < - 1 / 2 \<and> (\<forall>j<min B (length lens). \<exists>a. actual_size (lens ! j) T = Inr a)"
    then have "round_half_even x < 0" by (simp only: round_half_even_negative)
    then have bad: "round_half_even x < 0 \<or> int T < round_half_even x" ..
    from a have sizes: "\<forall>j<min B (length lens). \<exists>a. actual_size (lens ! j) T = Inr a"
      by blast
    from shp len V i sizes size bad show "ctc_greedy_decode p lens b = Inl RuntimeError"
      by (rule ctc_greedy_decode_rank3_error)
  }
  {
    assume a: "- 1 / 2 \<le> x \<and> x \<le> 1 / 2
      \<and> (\<forall>j<min B (length lens). \<exists>n. actual_size (lens ! j) T = Inr (int n) \<and> n \<le> T)"
    let ?outs = "map (\<lambda>j. decoded V T b (select0 p j) (nat (projr (actual_size (lens ! j) T))))
      [0..<min B (length lens)]"
    from a have range:
      "\<forall>j<min B (length lens). \<exists>n. actual_size (lens ! j) T = Inr (int n) \<and> n \<le> T"
      by blast
    from shp len V range have run: "ctc_greedy_decode p lens b = Inr ?outs"
      by (rule ctc_greedy_decode_rank3)
    have "round_half_even x = 0"
      using a by (simp only: round_half_even_zero_iff)
    then have "?outs ! i = []"
      using i size by (simp add: decoded_empty)
    with run i show "\<exists>outs. ctc_greedy_decode p lens b = Inr outs \<and> i < length outs \<and> outs ! i = []"
      by (intro exI [of _ ?outs]) simp
  }
  {
    assume z: "lens ! i = Fin 0"
    show "x = 0"
    proof (cases "f32_of_int (int T)")
      case (Fin t)
      with x z show ?thesis by (simp add: round_f32_def)
    qed (use x z in simp_all)
  }
qed

theorem ctc_greedy_decode_nonpositive_length_witness:
  "f32_mul ([Fin (- 1), Fin 1] ! 0) (f32_of_int (int 2)) = Fin (- 2)
   \<and> ctc_greedy_decode
        \<lparr>shape = [2, 2, 2], elems = [3 / 10, 0, 7 / 10, 0, 2 / 10, 9 / 10, 8 / 10, 1 / 10 :: rat]\<rparr>
        [Fin (- 1), Fin 1] (PyInt 0) = Inl RuntimeError
   \<and> f32_mul ([Fin 0, Fin 1] ! 0) (f32_of_int (int 2)) = Fin 0
   \<and> (\<exists>outs. ctc_greedy_decode
        \<lparr>shape = [2, 2, 2], elems = [3 / 10, 0, 7 / 10, 0, 2 / 10, 9 / 10, 8 / 10, 1 / 10 :: rat]\<rparr>
        [Fin 0, Fin 1] (PyInt 0) = Inr outs \<and> 0 < length outs \<and> outs ! 0 = [])"
proof -
  have m1: "f32_mul ([Fin (- 1), Fin 1] ! 0) (f32_of_int (int 2)) = Fin (- 2)" by code_simp
  have m0: "f32_mul ([Fin 0, Fin 1] ! 0) (f32_of_int (int 2)) = Fin 0" by code_simp
  have s1: "\<forall>j<min 2 (length [Fin (- 1), Fin 1]). \<exists>a. actual_size ([Fin (- 1), Fin 1] ! j) 2 = Inr a"
  proof (intro allI impI)
    fix j :: nat
    assume "j < min 2 (length [Fin (- 1), Fin 1])"
    then have "j = 0 \<or> j = 1" by auto
    then show "\<exists>a. actual_size ([Fin (- 1), Fin 1] ! j) 2 = Inr a"
      by (auto simp: actual_size_examples)
  qed
  have s0: "\<forall>j<min 2 (length [Fin 0, Fin 1]).
      \<exists>n. actual_size ([Fin 0, Fin 1] ! j) 2 = Inr (int n) \<and> n \<le> 2"
  proof (intro allI impI)
    fix j :: nat
    assume "j < min 2 (length [Fin 0, Fin 1])"
    then consider "j = 0" | "j = 1" by fastforce
    then show "\<exists>n. actual_size ([Fin 0, Fin 1] ! j) 2 = Inr (int n) \<and> n \<le> 2"
    proof cases
      case 1
      then show ?thesis by (intro exI [of _ 0]) (simp add: actual_size_examples)
    next
      case 2
      then show ?thesis by (intro exI [of _ 2]) (simp add: actual_size_examples)
    qed
  qed
  show ?thesis
    using ctc_greedy_decode_nonpositive_length
      [of "\<lparr>shape = [2, 2, 2], elems = [3 / 10, 0, 7 / 10, 0, 2 / 10, 9 / 10, 8 / 10, 1 / 10 :: rat]\<rparr>"
          2 2 2 0 "[Fin (- 1), Fin 1]" "- 2" "PyInt 0", OF _ _ _ _ _ m1]
      ctc_greedy_decode_nonpositive_length
      [of "\<lparr>shape = [2, 2, 2], elems = [3 / 10, 0, 7 / 10, 0, 2 / 10, 9 / 10, 8 / 10, 1 / 10 :: rat]\<rparr>"
          2 2 2 0 "[Fin 0, Fin 1]" 0 "PyInt 0", OF _ _ _ _ _ m0]
      s1 s0 m1 m0
    by simp
qed

end
